theory Spec2Isabelle
  imports Complex_Main
begin

section \<open>Data model of \<open>difference.py\<close>\<close>

text \<open>
  The exceptions that the constructor and the render step of \<open>DifferencePlot\<close> can raise.
  \<open>ShapeMismatch\<close> is the explicit \<open>raise Exception("Dataset shapes must be identical")\<close>;
  the other three are the exceptions Python and numpy raise on a zero modulus, on a negative
  dimension or an empty sample array, and on an index out of range.
\<close>

datatype error = ShapeMismatch | ZeroDivisionError | ValueError | IndexError

text \<open>
  A two-dimensional numpy array: its shape \<open>(shape0, shape1)\<close> (channels, samples) and its
  rows. The shape is kept apart from the rows because an array with no rows still has a
  sample count.
\<close>

record ndarray =
  shape0 :: nat
  shape1 :: nat
  rows :: "real list list"

definition shape :: "ndarray \<Rightarrow> nat \<times> nat" where
  "shape a = (shape0 a, shape1 a)"

definition wf_ndarray :: "ndarray \<Rightarrow> bool" where
  "wf_ndarray a \<longleftrightarrow> length (rows a) = shape0 a \<and> list_all (\<lambda>r. length r = shape1 a) (rows a)"

text \<open>\<open>np.zeros((c, k))\<close> and \<open>np.concatenate([a, b], axis=1)\<close>.\<close>

definition zeros :: "nat \<Rightarrow> nat \<Rightarrow> ndarray" where
  "zeros c k = \<lparr>shape0 = c, shape1 = k, rows = replicate c (replicate k 0)\<rparr>"

definition concatenate :: "ndarray \<Rightarrow> ndarray \<Rightarrow> ndarray" where
  "concatenate a b =
     \<lparr>shape0 = shape0 a, shape1 = shape1 a + shape1 b,
      rows = map (\<lambda>(r, z). r @ z) (zip (rows a) (rows b))\<rparr>"

text \<open>One subplot of the figure: its title, its horizontal extent, and one trace per dataset.\<close>

record subplot =
  title :: "string option"
  xlim :: "real \<times> real"
  traces :: "(real list \<times> real list) list"

text \<open>The attributes of a \<open>DifferencePlot\<close> object.\<close>

record viewer =
  window_width :: int
  window_height :: int
  ch_names :: "string list option"
  x :: int
  y :: int
  datasets :: "ndarray list"
  x_range :: "real list option"
  figure :: "subplot list"

section \<open>Python indexing and slicing\<close>

definition py_index :: "'a list \<Rightarrow> int \<Rightarrow> error + 'a" where
  "py_index xs i =
     (if 0 \<le> i \<and> i < int (length xs) then Inr (xs ! nat i)
      else if i < 0 \<and> - int (length xs) \<le> i then Inr (xs ! nat (int (length xs) + i))
      else Inl IndexError)"

definition slice_bound :: "int \<Rightarrow> int \<Rightarrow> int" where
  "slice_bound n i = (if i < 0 then max 0 (n + i) else min i n)"

definition py_slice :: "'a list \<Rightarrow> int \<Rightarrow> int \<Rightarrow> 'a list" where
  "py_slice xs lo hi =
     (let n = int (length xs); l = slice_bound n lo; h = slice_bound n hi
      in take (nat (h - l)) (drop (nat l) xs))"

text \<open>\<open>range(lo, hi)\<close>, read as coordinates.\<close>

definition py_range :: "int \<Rightarrow> int \<Rightarrow> real list" where
  "py_range lo hi = map real_of_int [lo..hi - 1]"

section \<open>Construction\<close>

text \<open>
  The padding loop of \<open>__init__\<close>: for each dataset, \<open>residue = shape[1] % window_width\<close>,
  then \<open>window_width - residue\<close> zero columns are appended. A zero width raises
  \<open>ZeroDivisionError\<close> at the modulo and a negative column count raises \<open>ValueError\<close> in
  \<open>np.zeros\<close>.
\<close>

fun pad_datasets :: "int \<Rightarrow> ndarray list \<Rightarrow> error + ndarray list" where
  "pad_datasets w [] = Inr []"
| "pad_datasets w (dataset # ds) =
     (if w = 0 then Inl ZeroDivisionError
      else let residue = int (shape1 dataset) mod w in
        if w - residue < 0 then Inl ValueError
        else let zero_matrix = zeros (shape0 dataset) (nat (w - residue)) in
          (case pad_datasets w ds of
             Inl e \<Rightarrow> Inl e
           | Inr padded \<Rightarrow> Inr (concatenate dataset zero_matrix # padded)))"

text \<open>
  \<open>np.interp(x, xp, fp)\<close> for increasing sample points \<open>xp\<close>: the value at \<open>v\<close> of the
  piecewise linear interpolant through the points \<open>(xp, fp)\<close>, held at \<open>fp[0]\<close> to the left
  of the first point and at \<open>fp[-1]\<close> to the right of the last. It raises \<open>ValueError\<close>
  when there is no sample point or when \<open>xp\<close> and \<open>fp\<close> differ in length.
\<close>

fun interp_at :: "real \<Rightarrow> (real \<times> real) list \<Rightarrow> real" where
  "interp_at v [] = 0"
| "interp_at v [(a, fa)] = fa"
| "interp_at v ((a, fa) # (b, fb) # ps) =
     (if v \<le> a then fa
      else if v < b then fa + (fb - fa) / (b - a) * (v - a)
      else interp_at v ((b, fb) # ps))"

definition interp :: "real list \<Rightarrow> real list \<Rightarrow> real list \<Rightarrow> error + real list" where
  "interp vs xp fp =
     (if xp = [] \<or> length xp \<noteq> length fp then Inl ValueError
      else Inr (map (\<lambda>v. interp_at v (zip xp fp)) vs))"

section \<open>The render step\<close>

text \<open>
  The two wrapped offsets of \<open>plot_window\<close>: \<open>real_channel = (self.y + channel) % C\<close> and
  \<open>left = (self.x * width) % T\<close>, where \<open>(C, T)\<close> is the shape of the first stored dataset.
  Python's \<open>%\<close> on integers takes the sign of the divisor, as \<open>mod\<close> on \<open>int\<close> does.
\<close>

definition real_channel :: "int \<Rightarrow> int \<Rightarrow> nat \<Rightarrow> int" where
  "real_channel yv channel c = (yv + channel) mod int c"

definition left :: "int \<Rightarrow> int \<Rightarrow> nat \<Rightarrow> int" where
  "left xv width t = (xv * width) mod int t"

text \<open>\<open>if self.ch_names: ax.set_title(self.ch_names[real_channel])\<close>\<close>

definition set_title :: "string list option \<Rightarrow> int \<Rightarrow> error + string option" where
  "set_title names rc =
     (case names of
        None \<Rightarrow> Inr None
      | Some ns \<Rightarrow>
          if ns = [] then Inr None
          else (case py_index ns rc of Inl e \<Rightarrow> Inl e | Inr n \<Rightarrow> Inr (Some n)))"

text \<open>
  The horizontal axis of one subplot: its extent and the coordinates of the window,
  from the interpolated \<open>x_range\<close> when there is one and from the raw sample indices
  otherwise.
\<close>

definition x_axis :: "real list option \<Rightarrow> int \<Rightarrow> int \<Rightarrow> error + (real \<times> real) \<times> real list" where
  "x_axis xr l width =
     (case xr of
        None \<Rightarrow> Inr ((real_of_int l, real_of_int (l + width)), py_range l (l + width))
      | Some r \<Rightarrow>
          (case py_index r l of
             Inl e \<Rightarrow> Inl e
           | Inr lo \<Rightarrow>
               (case py_index r (l + width - 1) of
                  Inl e \<Rightarrow> Inl e
                | Inr hi \<Rightarrow> Inr ((lo, hi), py_slice r l (l + width)))))"

text \<open>
  The inner loop over the datasets: \<open>data = dataset[real_channel]\<close>, then
  \<open>ax.plot(x_range, data[left:left+width])\<close>, which raises \<open>ValueError\<close> when the two
  sequences differ in length.
\<close>

fun plot_traces :: "real list \<Rightarrow> int \<Rightarrow> int \<Rightarrow> int \<Rightarrow> ndarray list \<Rightarrow> error + (real list \<times> real list) list" where
  "plot_traces xs rc l width [] = Inr []"
| "plot_traces xs rc l width (dataset # ds) =
     (case py_index (rows dataset) rc of
        Inl e \<Rightarrow> Inl e
      | Inr data \<Rightarrow>
          let ys = py_slice data l (l + width) in
          if length xs \<noteq> length ys then Inl ValueError
          else (case plot_traces xs rc l width ds of
                  Inl e \<Rightarrow> Inl e
                | Inr ts \<Rightarrow> Inr ((xs, ys) # ts)))"

text \<open>The body of the loop over \<open>range(self.window_height)\<close>: one subplot.\<close>

definition plot_channel :: "viewer \<Rightarrow> int \<Rightarrow> error + subplot" where
  "plot_channel v channel =
     (case datasets v of
        [] \<Rightarrow> Inl IndexError
      | d0 # _ \<Rightarrow>
          if shape0 d0 = 0 then Inl ZeroDivisionError
          else if shape1 d0 = 0 then Inl ZeroDivisionError
          else
            let rc = real_channel (y v) channel (shape0 d0);
                width = window_width v;
                l = left (x v) width (shape1 d0)
            in (case set_title (ch_names v) rc of
                  Inl e \<Rightarrow> Inl e
                | Inr ttl \<Rightarrow>
                    (case x_axis (x_range v) l width of
                       Inl e \<Rightarrow> Inl e
                     | Inr (extent, xs) \<Rightarrow>
                         (case plot_traces xs rc l width (datasets v) of
                            Inl e \<Rightarrow> Inl e
                          | Inr ts \<Rightarrow> Inr \<lparr>title = ttl, xlim = extent, traces = ts\<rparr>))))"

text \<open>
  \<open>plot_window\<close>: the figure is cleared, then one subplot is added per row. The result is
  the exception raised, if any, and the object after the call; a row that raises ends the
  loop, as the exception does.
\<close>

fun plot_loop :: "int list \<Rightarrow> viewer \<Rightarrow> error option \<times> viewer" where
  "plot_loop [] v = (None, v)"
| "plot_loop (channel # cs) v =
     (case plot_channel v channel of
        Inl e \<Rightarrow> (Some e, v)
      | Inr ax \<Rightarrow> plot_loop cs (v\<lparr>figure := figure v @ [ax]\<rparr>))"

definition plot_window :: "viewer \<Rightarrow> error option \<times> viewer" where
  "plot_window v = plot_loop [0..window_height v - 1] (v\<lparr>figure := []\<rparr>)"

section \<open>The key handler\<close>

definition on_key_release :: "string \<Rightarrow> viewer \<Rightarrow> error option \<times> viewer" where
  "on_key_release key v =
     plot_window
       (if key = ''left'' then v\<lparr>x := x v - 1\<rparr>
        else if key = ''right'' then v\<lparr>x := x v + 1\<rparr>
        else if key = ''up'' then v\<lparr>y := y v - 1\<rparr>
        else if key = ''down'' then v\<lparr>y := y v + 1\<rparr>
        else v)"

text \<open>
  A sequence of key-release events delivered to the object, in order. An exception raised
  by one callback does not undo its assignment and does not stop later events.
\<close>

definition key_events :: "string list \<Rightarrow> viewer \<Rightarrow> viewer" where
  "key_events keys v = fold (\<lambda>key u. snd (on_key_release key u)) keys v"

section \<open>The constructor\<close>

text \<open>\<open>np.interp(range(self.datasets[0].shape[1]), range(len(x_range)), x_range)\<close>\<close>

definition interp_x_range :: "ndarray list \<Rightarrow> real list option \<Rightarrow> error + real list option" where
  "interp_x_range padded xr =
     (case xr of
        None \<Rightarrow> Inr None
      | Some r \<Rightarrow>
          (case padded of
             [] \<Rightarrow> Inl IndexError
           | d0 # _ \<Rightarrow>
               (case interp (map real [0..<shape1 d0]) (map real [0..<length r]) r of
                  Inl e \<Rightarrow> Inl e
                | Inr ys \<Rightarrow> Inr (Some ys))))"

text \<open>
  \<open>DifferencePlot.__init__\<close>: the shape check, the attributes, the padding, the
  interpolation of \<open>x_range\<close>, and the first render. The arguments are \<open>datasets\<close>,
  \<open>ch_names\<close>, \<open>x\<close>, \<open>y\<close>, \<open>x_range\<close>, \<open>window_width\<close> and \<open>window_height\<close>.
\<close>

definition init :: "ndarray list \<Rightarrow> string list option \<Rightarrow> int \<Rightarrow> int \<Rightarrow> real list option \<Rightarrow> int \<Rightarrow> int \<Rightarrow> error + viewer" where
  "init dsets names x0 y0 xr w h =
     (if card (set (map shape dsets)) \<noteq> 1 then Inl ShapeMismatch
      else (case pad_datasets w dsets of
              Inl e \<Rightarrow> Inl e
            | Inr padded \<Rightarrow>
                (case interp_x_range padded xr of
                   Inl e \<Rightarrow> Inl e
                 | Inr xr' \<Rightarrow>
                     (case plot_window
                             \<lparr>window_width = w, window_height = h, ch_names = names,
                              x = x0, y = y0, datasets = padded, x_range = xr', figure = []\<rparr> of
                        (Some e, _) \<Rightarrow> Inl e
                      | (None, v) \<Rightarrow> Inr v))))"

section \<open>Viewers on which the render step cannot raise\<close>

text \<open>
  What one pass of the padding loop stores for a dataset, and the condition under which
  every statement of \<open>plot_window\<close> is defined: a positive width that divides the common,
  positive sample count \<open>t\<close> of the stored datasets, at least one channel, well-formed
  arrays of one shape \<open>(c, t)\<close>, channel names (when there are any) for every channel, and
  coordinates (when there are any) for every sample.
\<close>

definition pad :: "int \<Rightarrow> ndarray \<Rightarrow> ndarray" where
  "pad w dataset =
     concatenate dataset (zeros (shape0 dataset) (nat (w - int (shape1 dataset) mod w)))"

definition names_ok :: "nat \<Rightarrow> string list option \<Rightarrow> bool" where
  "names_ok c names = (case names of None \<Rightarrow> True | Some ns \<Rightarrow> ns = [] \<or> c \<le> length ns)"

definition ready :: "nat \<Rightarrow> nat \<Rightarrow> viewer \<Rightarrow> bool" where
  "ready c t v \<longleftrightarrow>
     0 < window_width v \<and> 0 < c \<and> 0 < t \<and> int t mod window_width v = 0 \<and>
     datasets v \<noteq> [] \<and>
     list_all (\<lambda>d. shape0 d = c \<and> shape1 d = t \<and> wf_ndarray d) (datasets v) \<and>
     names_ok c (ch_names v) \<and>
     (case x_range v of None \<Rightarrow> True | Some r \<Rightarrow> length r = t)"

section \<open>Construction fails on an empty or a mixed collection\<close>

text \<open>
  C9: with no dataset at all the set of shapes is empty, its size is not 1, and the
  constructor raises the same exception as for mismatched shapes, whatever the other
  arguments are.
\<close>

theorem init_empty_ShapeMismatch:
  "init [] names x0 y0 xr w h = Inl ShapeMismatch"
  by (simp add: init_def)

text \<open>
  C3: when two datasets of the collection differ in shape, the constructor raises the shape
  exception. The check is the first statement of \<open>__init__\<close>: the result is the same for
  every value of the other arguments (also for a zero \<open>window_width\<close>, which the padding
  loop would reject), so nothing is padded or assigned before it, and the result is an
  error that carries no object on which \<open>plot_window\<close> could be called.
\<close>

theorem init_ShapeMismatch:
  assumes "d1 \<in> set dsets" and "d2 \<in> set dsets" and "shape d1 \<noteq> shape d2"
  shows "init dsets names x0 y0 xr w h = Inl ShapeMismatch"
proof -
  have "shape d1 \<in> set (map shape dsets)" "shape d2 \<in> set (map shape dsets)"
    using assms by auto
  then have "card (set (map shape dsets)) \<noteq> 1"
    using assms(3) by (metis card_1_singletonE singletonD)
  then show ?thesis by (simp add: init_def)
qed

theorem init_ShapeMismatch_witness:
  "init [zeros 2 3, zeros 2 4] None 0 0 None 0 3 = Inl ShapeMismatch"
  using init_ShapeMismatch [of "zeros 2 3" "[zeros 2 3, zeros 2 4]" "zeros 2 4" None 0 0 None 0 3]
  by (simp add: zeros_def shape_def)

section \<open>What the render step leaves alone\<close>

text \<open>
  \<open>plot_window\<close> assigns to no attribute: the object after the call, with or without an
  exception, is the object before it with another figure.
\<close>

lemma plot_loop_figure_only: "\<exists>f. snd (plot_loop cs v) = v\<lparr>figure := f\<rparr>"
proof (induction cs arbitrary: v)
  case Nil
  have "v = v\<lparr>figure := figure v\<rparr>" by simp
  then show ?case by (metis plot_loop.simps(1) snd_conv)
next
  case (Cons channel cs)
  show ?case
  proof (cases "plot_channel v channel")
    case (Inl e)
    have "v = v\<lparr>figure := figure v\<rparr>" by simp
    with Inl show ?thesis by (metis plot_loop.simps(2) sum.simps(5) snd_conv)
  next
    case (Inr ax)
    from Cons.IH [of "v\<lparr>figure := figure v @ [ax]\<rparr>"] obtain f
      where "snd (plot_loop cs (v\<lparr>figure := figure v @ [ax]\<rparr>)) = v\<lparr>figure := figure v @ [ax], figure := f\<rparr>"
      by blast
    with Inr show ?thesis by auto
  qed
qed

lemma plot_window_figure_only: "\<exists>f. snd (plot_window v) = v\<lparr>figure := f\<rparr>"
proof -
  obtain f where "snd (plot_loop [0..window_height v - 1] (v\<lparr>figure := []\<rparr>)) = v\<lparr>figure := [], figure := f\<rparr>"
    using plot_loop_figure_only by blast
  then show ?thesis by (auto simp: plot_window_def)
qed

text \<open>
  C8: the render step changes neither the offsets \<open>x\<close> and \<open>y\<close>, nor the padded datasets,
  nor the interpolated \<open>x_range\<close>, nor the channel names (nor the window dimensions),
  whether it returns or raises.
\<close>

theorem plot_window_frame:
  "x (snd (plot_window v)) = x v \<and> y (snd (plot_window v)) = y v
   \<and> datasets (snd (plot_window v)) = datasets v
   \<and> x_range (snd (plot_window v)) = x_range v
   \<and> ch_names (snd (plot_window v)) = ch_names v
   \<and> window_width (snd (plot_window v)) = window_width v
   \<and> window_height (snd (plot_window v)) = window_height v"
proof -
  obtain f where "snd (plot_window v) = v\<lparr>figure := f\<rparr>"
    using plot_window_figure_only by blast
  then show ?thesis by simp
qed

section \<open>What the key handler changes\<close>

lemma on_key_release_figure_only:
  "\<exists>f. snd (on_key_release key v) =
     v\<lparr>x := (if key = ''left'' then x v - 1 else if key = ''right'' then x v + 1 else x v),
       y := (if key = ''up'' then y v - 1 else if key = ''down'' then y v + 1 else y v),
       figure := f\<rparr>"
proof -
  let ?u = "(if key = ''left'' then v\<lparr>x := x v - 1\<rparr>
        else if key = ''right'' then v\<lparr>x := x v + 1\<rparr>
        else if key = ''up'' then v\<lparr>y := y v - 1\<rparr>
        else if key = ''down'' then v\<lparr>y := y v + 1\<rparr>
        else v)"
  obtain f where f: "snd (plot_window ?u) = ?u\<lparr>figure := f\<rparr>"
    using plot_window_figure_only by blast
  have "snd (on_key_release key v) = ?u\<lparr>figure := f\<rparr>"
    using f by (simp add: on_key_release_def)
  then show ?thesis by (intro exI [of _ f]) auto
qed

lemma key_events_right: "x (key_events (replicate n ''right'') v) = x v + int n"
proof (induction n arbitrary: v)
  case 0
  then show ?case by (simp add: key_events_def)
next
  case (Suc n)
  obtain f where f: "snd (on_key_release ''right'' v) = v\<lparr>x := x v + 1, figure := f\<rparr>"
    using on_key_release_figure_only [of "''right''" v] by auto
  have "key_events (replicate (Suc n) ''right'') v = key_events (replicate n ''right'') (snd (on_key_release ''right'' v))"
    by (simp add: key_events_def)
  then show ?case using Suc.IH [of "snd (on_key_release ''right'' v)"] f by simp
qed

lemma on_key_release_other:
  "key \<noteq> ''left'' \<Longrightarrow> key \<noteq> ''right'' \<Longrightarrow> key \<noteq> ''up'' \<Longrightarrow> key \<noteq> ''down''
   \<Longrightarrow> on_key_release key v = plot_window v"
  unfolding on_key_release_def by (simp only: if_False)

text \<open>
  C6: \<open>left\<close> and \<open>right\<close> move \<open>x\<close> by one down and up, \<open>up\<close> and \<open>down\<close> move \<open>y\<close> by
  one down and up, and every other key leaves both offsets as they are. Starting from
  \<open>x = 0\<close>, eleven \<open>right\<close> events give \<open>x = 11\<close>, and the window start for a width of 100
  on 1000 padded samples is then 100.
\<close>

theorem on_key_release_offsets:
  "x (snd (on_key_release key v)) =
     (if key = ''left'' then x v - 1 else if key = ''right'' then x v + 1 else x v)
   \<and> y (snd (on_key_release key v)) =
     (if key = ''up'' then y v - 1 else if key = ''down'' then y v + 1 else y v)
   \<and> x (key_events (replicate 11 ''right'') (v\<lparr>x := 0\<rparr>)) = 11
   \<and> left 11 100 1000 = 100"
proof -
  obtain f where "snd (on_key_release key v) =
     v\<lparr>x := (if key = ''left'' then x v - 1 else if key = ''right'' then x v + 1 else x v),
       y := (if key = ''up'' then y v - 1 else if key = ''down'' then y v + 1 else y v),
       figure := f\<rparr>"
    using on_key_release_figure_only by blast
  then have a: "x (snd (on_key_release key v)) =
     (if key = ''left'' then x v - 1 else if key = ''right'' then x v + 1 else x v)"
    and b: "y (snd (on_key_release key v)) =
     (if key = ''up'' then y v - 1 else if key = ''down'' then y v + 1 else y v)"
    by simp_all
  have c: "x (key_events (replicate 11 ''right'') (v\<lparr>x := 0\<rparr>)) = 11"
    by (simp add: key_events_right)
  have d: "left 11 100 1000 = 100"
    by (simp add: left_def)
  from a b c d show ?thesis by blast
qed

text \<open>
  C10: every key-release event ends in a render. The result of the handler is the result
  of \<open>plot_window\<close> on an object that differs from the one before the event in its offsets
  at most, and for a key other than the four directional ones it is the result of
  \<open>plot_window\<close> on the unchanged object.
\<close>

theorem on_key_release_renders:
  "(\<exists>u. on_key_release key v = plot_window u \<and> u\<lparr>x := x v, y := y v\<rparr> = v)
   \<and> (key \<notin> {''left'', ''right'', ''up'', ''down''} \<longrightarrow> on_key_release key v = plot_window v)"
proof
  let ?u = "(if key = ''left'' then v\<lparr>x := x v - 1\<rparr>
        else if key = ''right'' then v\<lparr>x := x v + 1\<rparr>
        else if key = ''up'' then v\<lparr>y := y v - 1\<rparr>
        else if key = ''down'' then v\<lparr>y := y v + 1\<rparr>
        else v)"
  have "on_key_release key v = plot_window ?u"
    by (simp only: on_key_release_def)
  moreover have "?u\<lparr>x := x v, y := y v\<rparr> = v"
    by (simp split: if_splits)
  ultimately show "\<exists>u. on_key_release key v = plot_window u \<and> u\<lparr>x := x v, y := y v\<rparr> = v"
    by blast
next
  show "key \<notin> {''left'', ''right'', ''up'', ''down''} \<longrightarrow> on_key_release key v = plot_window v"
    using on_key_release_other [of key v] by blast
qed


theorem on_key_release_renders_witness:
  "''a'' \<notin> {''left'', ''right'', ''up'', ''down''}
   \<and> on_key_release ''a'' \<lparr>window_width = 2, window_height = 1, ch_names = None, x = 0, y = 0,
        datasets = [zeros 1 2], x_range = None, figure = []\<rparr>
     = plot_window \<lparr>window_width = 2, window_height = 1, ch_names = None, x = 0, y = 0,
        datasets = [zeros 1 2], x_range = None, figure = []\<rparr>"
proof -
  have k: "''a'' \<notin> {''left'', ''right'', ''up'', ''down''}" by simp
  from k on_key_release_renders [THEN conjunct2, THEN mp, OF k] show ?thesis by blast
qed

section \<open>The render step on a ready viewer\<close>

text \<open>
  When the width is positive and divides the sample count, the window start is a multiple
  of the width below the sample count, so a whole window fits after it.
\<close>

lemma left_bounds:
  assumes "0 < w" and "0 < t" and "int t mod w = 0"
  shows "0 \<le> left xv w t \<and> left xv w t + w \<le> int t"
proof -
  from assms(3) have "w dvd int t" by (simp add: mod_eq_0_iff_dvd)
  then obtain k where k: "int t = w * k" by (rule dvdE)
  have kpos: "0 < k"
  proof (rule ccontr)
    assume "\<not> 0 < k"
    then have "k \<le> 0" by simp
    then have "w * k \<le> 0" using assms(1) by (simp add: mult_le_0_iff)
    with k assms(2) show False by simp
  qed
  have "(xv * w) mod (w * k) = (w * xv) mod (w * k)" by (simp only: mult.commute)
  also have "\<dots> = w * (xv mod k)" by (rule mult_mod_right [symmetric])
  finally have l: "left xv w t = w * (xv mod k)" by (simp only: left_def k)
  have a: "0 \<le> xv mod k" using kpos by simp
  have "xv mod k < k" using kpos by simp
  then have b: "xv mod k + 1 \<le> k" by simp
  have "0 \<le> w * (xv mod k)" using a assms(1) by simp
  moreover have "w * (xv mod k + 1) \<le> w * k" using b assms(1) by (simp only: mult_le_cancel_left_pos)
  then have "w * (xv mod k) + w \<le> w * k" by (simp only: distrib_left mult_1_right)
  ultimately show ?thesis by (simp only: l k)
qed

lemma real_channel_bounds:
  "0 < c \<Longrightarrow> 0 \<le> real_channel yv r c \<and> real_channel yv r c \<le> int c - 1"
  by (simp add: real_channel_def)

lemma length_py_slice:
  assumes "0 \<le> l" and "0 \<le> w" and "l + w \<le> int (length r)"
  shows "length (py_slice r l (l + w)) = nat w"
  using assms by (simp add: py_slice_def slice_bound_def Let_def)

lemma py_slice_take_drop:
  assumes "0 \<le> l" and "0 \<le> w" and "l + w \<le> int (length r)"
  shows "py_slice r l (l + w) = take (nat w) (drop (nat l) r)"
  using assms by (simp add: py_slice_def slice_bound_def Let_def)

lemma length_py_range: "0 \<le> w \<Longrightarrow> length (py_range l (l + w)) = nat w"
  by (simp add: py_range_def)

lemma py_index_Inr:
  "0 \<le> i \<Longrightarrow> i < int (length r) \<Longrightarrow> py_index r i = Inr (r ! nat i)"
  by (simp add: py_index_def)

lemma x_axis_Inr:
  assumes "0 \<le> l" and "0 < w" and "l + w \<le> int t"
    and "case xr of None \<Rightarrow> True | Some r \<Rightarrow> length r = t"
  shows "\<exists>ext xs. x_axis xr l w = Inr (ext, xs) \<and> length xs = nat w"
proof (cases xr)
  case None
  then show ?thesis using assms by (simp add: x_axis_def length_py_range)
next
  case (Some r)
  with assms have len: "length r = t" by simp
  have a: "py_index r l = Inr (r ! nat l)"
    using assms len by (intro py_index_Inr) auto
  have b: "py_index r (l + w - 1) = Inr (r ! nat (l + w - 1))"
    using assms len by (intro py_index_Inr) auto
  have "length (py_slice r l (l + w)) = nat w"
    using assms len by (intro length_py_slice) auto
  then show ?thesis using Some a b by (simp add: x_axis_def)
qed

lemma set_title_Inr:
  assumes "names_ok c names" and "0 \<le> rc" and "rc < int c"
  shows "\<exists>ttl. set_title names rc = Inr ttl"
proof (cases names)
  case None
  then show ?thesis by (simp add: set_title_def)
next
  case (Some ns)
  show ?thesis
  proof (cases "ns = []")
    case True
    with Some show ?thesis by (simp add: set_title_def)
  next
    case False
    with Some assms have "py_index ns rc = Inr (ns ! nat rc)"
      by (intro py_index_Inr) (auto simp: names_ok_def)
    with Some False show ?thesis by (simp add: set_title_def)
  qed
qed

lemma plot_traces_Inr:
  assumes "list_all (\<lambda>d. shape0 d = c \<and> shape1 d = t \<and> wf_ndarray d) ds"
    and "0 \<le> rc" and "rc < int c" and "0 \<le> l" and "0 \<le> w" and "l + w \<le> int t"
    and "length xs = nat w"
  shows "\<exists>ts. plot_traces xs rc l w ds = Inr ts"
  using assms(1)
proof (induction ds)
  case Nil
  then show ?case by simp
next
  case (Cons d ds)
  then have d: "shape0 d = c" "shape1 d = t" "wf_ndarray d" by simp_all
  from d have lr: "length (rows d) = c" by (simp add: wf_ndarray_def)
  have idx: "py_index (rows d) rc = Inr (rows d ! nat rc)"
    using assms(2,3) lr by (intro py_index_Inr) auto
  have "rows d ! nat rc \<in> set (rows d)"
    using assms(2,3) lr by (intro nth_mem) auto
  with d have "length (rows d ! nat rc) = t"
    by (simp add: wf_ndarray_def list_all_iff)
  then have "length (py_slice (rows d ! nat rc) l (l + w)) = nat w"
    using assms by (intro length_py_slice) auto
  moreover from Cons obtain ts where "plot_traces xs rc l w ds = Inr ts" by auto
  ultimately show ?case using idx assms(7) by simp
qed

lemma plot_channel_Inr:
  assumes "ready c t v"
  shows "\<exists>ax. plot_channel v channel = Inr ax"
proof -
  from assms obtain d0 ds where ds: "datasets v = d0 # ds"
    by (auto simp: ready_def neq_Nil_conv)
  with assms have d0: "shape0 d0 = c" "shape1 d0 = t" by (simp_all add: ready_def)
  let ?w = "window_width v"
  let ?rc = "real_channel (y v) channel c"
  let ?l = "left (x v) ?w t"
  from assms have w: "0 < ?w" and c: "0 < c" and t: "0 < t" and m: "int t mod ?w = 0"
    by (simp_all add: ready_def)
  have rc: "0 \<le> ?rc" "?rc < int c" using real_channel_bounds [OF c, of "y v" channel] by simp_all
  have l: "0 \<le> ?l" "?l + ?w \<le> int t" using left_bounds [OF w t m, of "x v"] by simp_all
  from assms have "names_ok c (ch_names v)" by (simp add: ready_def)
  then obtain ttl where ttl: "set_title (ch_names v) ?rc = Inr ttl"
    using set_title_Inr rc by blast
  from assms have "case x_range v of None \<Rightarrow> True | Some r \<Rightarrow> length r = t"
    by (simp add: ready_def)
  then obtain ext xs where ax: "x_axis (x_range v) ?l ?w = Inr (ext, xs)" "length xs = nat ?w"
    using x_axis_Inr [OF l(1) w l(2)] by blast
  from assms have "list_all (\<lambda>d. shape0 d = c \<and> shape1 d = t \<and> wf_ndarray d) (datasets v)"
    by (simp add: ready_def)
  then obtain ts where ts: "plot_traces xs ?rc ?l ?w (datasets v) = Inr ts"
    using plot_traces_Inr [OF _ rc l(1) _ l(2) ax(2)] w by fastforce
  show ?thesis
    using ds d0 c t ttl ax(1) ts by (simp add: plot_channel_def Let_def)
qed

lemma ready_figure: "ready c t (v\<lparr>figure := f\<rparr>) = ready c t v"
  by (simp add: ready_def)

lemma plot_loop_None: "ready c t v \<Longrightarrow> fst (plot_loop cs v) = None"
proof (induction cs arbitrary: v)
  case Nil
  then show ?case by simp
next
  case (Cons channel cs)
  from plot_channel_Inr [OF Cons.prems] obtain ax where ax: "plot_channel v channel = Inr ax"
    by blast
  have "ready c t (v\<lparr>figure := figure v @ [ax]\<rparr>)"
    using Cons.prems by (simp add: ready_figure)
  from Cons.IH [OF this] ax show ?case by simp
qed

lemma plot_window_None: "ready c t v \<Longrightarrow> fst (plot_window v) = None"
  by (simp add: plot_window_def plot_loop_None ready_figure)

section \<open>The padding loop\<close>

text \<open>
  For a positive width the loop never raises and stores \<open>pad w d\<close> for each dataset \<open>d\<close>;
  for any other width it raises on the first dataset.
\<close>

lemma pad_datasets_Inr: "0 < w \<Longrightarrow> pad_datasets w ds = Inr (map (pad w) ds)"
proof (induction ds)
  case Nil
  then show ?case by simp
next
  case (Cons d ds)
  have "int (shape1 d) mod w < w" using Cons.prems by simp
  then have "\<not> w - int (shape1 d) mod w < 0" by simp
  then show ?case using Cons by (simp add: pad_def Let_def)
qed

lemma pad_datasets_pos:
  assumes "pad_datasets w ds = Inr ps" and "ds \<noteq> []"
  shows "0 < w"
proof (rule ccontr)
  assume n: "\<not> 0 < w"
  from assms(2) obtain d ds' where ds: "ds = d # ds'" by (auto simp: neq_Nil_conv)
  show False
  proof (cases "w = 0")
    case True
    with assms(1) ds show False by simp
  next
    case False
    with n have neg: "w < 0" by simp
    then have "w < int (shape1 d) mod w" by (rule neg_mod_bound)
    then have "w - int (shape1 d) mod w < 0" by simp
    with assms(1) ds False show False by (simp add: Let_def)
  qed
qed

lemma shape0_pad: "shape0 (pad w d) = shape0 d"
  by (simp add: pad_def concatenate_def)

lemma shape1_pad: "shape1 (pad w d) = shape1 d + nat (w - int (shape1 d) mod w)"
  by (simp add: pad_def concatenate_def zeros_def)

lemma rows_pad:
  assumes "wf_ndarray d"
  shows "rows (pad w d) = map (\<lambda>r. r @ replicate (nat (w - int (shape1 d) mod w)) 0) (rows d)"
proof (rule nth_equalityI)
  from assms have len: "length (rows d) = shape0 d" by (simp add: wf_ndarray_def)
  show "length (rows (pad w d)) =
        length (map (\<lambda>r. r @ replicate (nat (w - int (shape1 d) mod w)) 0) (rows d))"
    by (simp add: pad_def concatenate_def zeros_def len)
  fix i
  assume "i < length (rows (pad w d))"
  then have "i < length (rows d)"
    by (simp add: pad_def concatenate_def zeros_def len)
  then show "rows (pad w d) ! i =
        map (\<lambda>r. r @ replicate (nat (w - int (shape1 d) mod w)) 0) (rows d) ! i"
    by (simp add: pad_def concatenate_def zeros_def len)
qed

lemma wf_pad:
  assumes "wf_ndarray d"
  shows "wf_ndarray (pad w d)"
proof -
  from assms have len: "length (rows d) = shape0 d"
    and row: "\<And>r. r \<in> set (rows d) \<Longrightarrow> length r = shape1 d"
    by (simp_all add: wf_ndarray_def list_all_iff)
  show ?thesis
    unfolding wf_ndarray_def rows_pad [OF assms] shape0_pad shape1_pad
    by (simp add: len list_all_iff row)
qed

lemma padded_count:
  assumes "0 < w"
  shows "int (shape1 (pad w d)) = int (shape1 d) - int (shape1 d) mod w + w"
proof -
  have "int (shape1 d) mod w < w" using assms by simp
  then show ?thesis by (simp add: shape1_pad)
qed

lemma padded_count_mod:
  assumes "0 < w"
  shows "int (shape1 (pad w d)) mod w = 0"
proof -
  have "int (shape1 d) - int (shape1 d) mod w = w * (int (shape1 d) div w)"
    by (simp add: minus_mod_eq_mult_div)
  then have "int (shape1 (pad w d)) = w * (int (shape1 d) div w) + w"
    using padded_count [OF assms, of d] by simp
  then show ?thesis by simp
qed

lemma padded_count_bounds:
  assumes "0 < w"
  shows "shape1 d < shape1 (pad w d)" and "int (shape1 (pad w d)) \<le> int (shape1 d) + w"
proof -
  have "int (shape1 d) mod w < w" "0 \<le> int (shape1 d) mod w" using assms by simp_all
  then have "int (shape1 d) < int (shape1 (pad w d))" "int (shape1 (pad w d)) \<le> int (shape1 d) + w"
    using padded_count [OF assms, of d] by simp_all
  then show "shape1 d < shape1 (pad w d)" and "int (shape1 (pad w d)) \<le> int (shape1 d) + w"
    by simp_all
qed

lemma padded_count_least:
  assumes "0 < w" and "int (shape1 d) mod w \<noteq> 0" and "int m mod w = 0" and "shape1 d \<le> m"
  shows "shape1 (pad w d) \<le> m"
proof -
  let ?t = "int (shape1 d)"
  from assms(3) have "w dvd int m" by (simp add: mod_eq_0_iff_dvd)
  then obtain j where j: "int m = w * j" by (rule dvdE)
  have tp: "int (shape1 (pad w d)) = w * (?t div w + 1)"
    using padded_count [OF assms(1), of d] by (simp add: minus_mod_eq_mult_div distrib_left)
  have "0 \<le> ?t mod w" using assms(1) by simp
  with assms(2) have "0 < ?t mod w" by linarith
  moreover have "?t = w * (?t div w) + ?t mod w" by simp
  ultimately have "w * (?t div w) < ?t" by linarith
  also have "?t \<le> w * j" using assms(4) j by simp
  finally have "w * (?t div w) < w * j" .
  then have "?t div w < j" using assms(1) by (simp only: mult_less_cancel_left_pos)
  then have "?t div w + 1 \<le> j" by simp
  then have "w * (?t div w + 1) \<le> w * j" using assms(1) by (simp only: mult_le_cancel_left_pos)
  with tp j have "int (shape1 (pad w d)) \<le> int m" by simp
  then show ?thesis by simp
qed

lemma card_shapes_one:
  assumes "ds \<noteq> []" and "list_all (\<lambda>d. shape d = s) ds"
  shows "card (set (map shape ds)) = 1"
proof -
  from assms have "set (map shape ds) = {s}"
    by (cases ds) (auto simp: list_all_iff)
  then show ?thesis by simp
qed

lemma card_shapes_oneD:
  assumes "card (set (map shape ds)) = 1"
  shows "ds \<noteq> []" and "\<exists>s. list_all (\<lambda>d. shape d = s) ds"
proof -
  from assms obtain s where s: "set (map shape ds) = {s}" by (rule card_1_singletonE)
  then show "ds \<noteq> []" by auto
  from s have "\<forall>d\<in>set ds. shape d = s" by auto
  then show "\<exists>s. list_all (\<lambda>d. shape d = s) ds" by (auto simp: list_all_iff)
qed

end
